theory Spec2Isabelle
  imports Main "HOL-Library.AList"
begin

section \<open>Python values, dictionaries and exceptions\<close>

text \<open>
  The session object of \<^verbatim>\<open>ring_doorbell/__init__.py\<close> holds untyped Python
  values: the cache record read from disk, the OAuth token dictionary and JSON
  response bodies. They are modelled by one datatype of values. A dictionary is an
  association list read with \<^const>\<open>map_of\<close>; \<^verbatim>\<open>d[k] = v\<close> is
  \<^const>\<open>AList.update\<close> and \<^verbatim>\<open>d.update(e)\<close> is \<^const>\<open>AList.merge\<close>.
\<close>

datatype pyval =
    PNone
  | PBool bool
  | PInt int
  | PStr string
  | PList "pyval list"
  | PDict "(string \<times> pyval) list"

type_synonym dict = "(string \<times> pyval) list"

datatype error =
    RequestException
  | HTTPError int
  | OAuthError
  | KeyError string
  | TypeError
  | AttributeError
  | ValueError
  | UnboundLocalError

text \<open>Python truthiness, as used by \<^verbatim>\<open>if not self.auth\<close> and \<^verbatim>\<open>if extra_params\<close>.\<close>

fun truthy :: "pyval \<Rightarrow> bool" where
  "truthy PNone = False"
| "truthy (PBool b) = b"
| "truthy (PInt n) = (n \<noteq> 0)"
| "truthy (PStr s) = (s \<noteq> [])"
| "truthy (PList xs) = (xs \<noteq> [])"
| "truthy (PDict d) = (d \<noteq> [])"

text \<open>\<^verbatim>\<open>v[k]\<close> with a string key: KeyError on a dictionary without the key, TypeError
  on every value that is not a dictionary.\<close>

fun subscript :: "pyval \<Rightarrow> string \<Rightarrow> error + pyval" where
  "subscript (PDict d) k = (case map_of d k of None \<Rightarrow> Inl (KeyError k) | Some v \<Rightarrow> Inr v)"
| "subscript _ k = Inl TypeError"

text \<open>\<^verbatim>\<open>v.get(k)\<close>: only dictionaries have the method.\<close>

fun py_get :: "pyval \<Rightarrow> string \<Rightarrow> error + pyval" where
  "py_get (PDict d) k = Inr (case map_of d k of None \<Rightarrow> PNone | Some v \<Rightarrow> v)"
| "py_get _ k = Inl AttributeError"

text \<open>\<^verbatim>\<open>timedelta(seconds=v)\<close>: a number of seconds (a bool is an int in Python);
  floats are outside the model.\<close>

fun timedelta_seconds :: "pyval \<Rightarrow> error + int" where
  "timedelta_seconds (PInt n) = Inr n"
| "timedelta_seconds (PBool b) = Inr (if b then 1 else 0)"
| "timedelta_seconds _ = Inl TypeError"

section \<open>Transport, environment and session state\<close>

text \<open>
  A \<^verbatim>\<open>requests.Response\<close>: its status code and what \<^verbatim>\<open>json()\<close> gives
  (\<open>None\<close> when the body does not decode, where \<^verbatim>\<open>json()\<close> raises ValueError).
\<close>

record response =
  status_code :: int
  json_body :: "pyval option"

text \<open>\<^verbatim>\<open>Response.__bool__\<close> is \<^verbatim>\<open>Response.ok\<close>: false exactly when
  \<^verbatim>\<open>raise_for_status()\<close> raises, that is for a status from 400 to 599.\<close>

definition is_http_error :: "response \<Rightarrow> bool" where
  "is_http_error r = (400 \<le> status_code r \<and> status_code r < 600)"

definition resp_ok :: "response \<Rightarrow> bool" where
  "resp_ok r = (\<not> is_http_error r)"

datatype http_outcome = Responds response | Fails

text \<open>
  The environment fixes what the outside world answers: the outcome of the n-th HTTP
  request, of the n-th call to the OAuth helper (\<^verbatim>\<open>fetch_token\<close> or
  \<^verbatim>\<open>refresh_tokens\<close> of \<^verbatim>\<open>ring_doorbell.auth.Auth\<close>) and the n-th reading of
  \<^verbatim>\<open>datetime.now()\<close>, in seconds. The constants of \<^verbatim>\<open>ring_doorbell.const\<close>
  that the session code reads are parameters as well.
\<close>

record env =
  http :: "nat \<Rightarrow> http_outcome"
  oauth :: "nat \<Rightarrow> error + pyval"
  clock :: "nat \<Rightarrow> int"
  API_VERSION :: pyval
  API_URI :: string
  NEW_SESSION_ENDPOINT :: string
  DEVICES_ENDPOINT :: string
  PERSIST_TOKEN_ENDPOINT :: string
  RETRY_TOKEN :: int
  CACHE_ATTRS :: dict

text \<open>
  What the session does to the outside world is recorded in a trace. A request of
  \<^verbatim>\<open>query\<close> carries method, URL, query parameters and the bearer token of its
  Authorization header; \<open>QueryReply\<close> is the status it received. \<open>AuthenticateCall\<close>
  marks an entry into \<^verbatim>\<open>_authenticate\<close> and records \<^verbatim>\<open>is_connected\<close> at
  that moment.
\<close>

datatype event =
    FetchToken
  | RefreshTokens
  | AuthenticateCall "bool option"
  | SessionPost string pyval
  | PersistPut string pyval pyval string
  | QueryRequest string string dict pyval
  | QueryReply int
  | Sleep
  | SaveCache dict

text \<open>
  The fields of the \<^verbatim>\<open>Ring\<close> object, followed by the state of the world it acts
  on: how many HTTP, OAuth and clock answers have been consumed, the content of the
  cache file (\<open>None\<close> when there is no file) and the trace. The timeout only travels
  to the transport and is left out.
\<close>

record ring =
  is_connected :: "bool option"
  token :: pyval
  params :: "dict option"
  persist_token :: bool
  push_token_notify_url :: string
  debug :: bool
  username :: string
  password :: string
  auth :: pyval
  last_refresh :: "int option"
  cache :: dict
  reuse_session :: bool
  http_n :: nat
  oauth_n :: nat
  clock_n :: nat
  cache_store :: "dict option"
  trace :: "event list"

type_synonym 'a result = "(error + 'a) \<times> ring"

text \<open>What \<^verbatim>\<open>query\<close> returns: the raw response object, or a Python value
  (\<^verbatim>\<open>None\<close> is \<open>Val PNone\<close>).\<close>

datatype qval = Raw response | Val pyval

subsection \<open>Primitive effects\<close>

definition http_request :: "env \<Rightarrow> event \<Rightarrow> ring \<Rightarrow> response result" where
  "http_request E ev s =
     (let s' = s\<lparr>http_n := Suc (http_n s), trace := trace s @ [ev]\<rparr>
      in case http E (http_n s) of
           Fails \<Rightarrow> (Inl RequestException, s')
         | Responds r \<Rightarrow> (Inr r, s'))"

definition oauth_call :: "env \<Rightarrow> event \<Rightarrow> ring \<Rightarrow> pyval result" where
  "oauth_call E ev s =
     (oauth E (oauth_n s), s\<lparr>oauth_n := Suc (oauth_n s), trace := trace s @ [ev]\<rparr>)"

definition now :: "env \<Rightarrow> ring \<Rightarrow> int \<times> ring" where
  "now E s = (clock E (clock_n s), s\<lparr>clock_n := Suc (clock_n s)\<rparr>)"

definition sleep :: "ring \<Rightarrow> ring" where
  "sleep s = s\<lparr>trace := trace s @ [Sleep]\<rparr>"

text \<open>
  Modelled from the spec: \<^verbatim>\<open>_exists_cache\<close>, \<^verbatim>\<open>_read_cache\<close> and
  \<^verbatim>\<open>_save_cache\<close> of \<^verbatim>\<open>ring_doorbell.utils\<close> are not part of the examined
  source. The spec describes the cache file as a serialized mapping that is read and
  written as a whole object: saving stores the dictionary, reading returns the stored
  dictionary.
\<close>

definition exists_cache :: "ring \<Rightarrow> bool" where
  "exists_cache s = (cache_store s \<noteq> None)"

definition read_cache :: "ring \<Rightarrow> dict" where
  "read_cache s = (case cache_store s of None \<Rightarrow> [] | Some c \<Rightarrow> c)"

definition save_cache :: "dict \<Rightarrow> ring \<Rightarrow> ring" where
  "save_cache c s = s\<lparr>cache_store := Some c, trace := trace s @ [SaveCache c]\<rparr>"

section \<open>The session manager\<close>

subsection \<open>\<^verbatim>\<open>_get_oauth_token\<close>\<close>

text \<open>The expiry instant, computed only when \<^verbatim>\<open>last_refresh\<close> is set.\<close>

definition refresh_at :: "ring \<Rightarrow> error + int option" where
  "refresh_at s =
     (case last_refresh s of
        None \<Rightarrow> Inr None
      | Some lr \<Rightarrow>
          (case subscript (auth s) ''expires_in'' of
             Inl e \<Rightarrow> Inl e
           | Inr v \<Rightarrow>
               (case timedelta_seconds v of
                  Inl e \<Rightarrow> Inl e
                | Inr n \<Rightarrow> Inr (Some (lr + n)))))"

text \<open>\<^verbatim>\<open>not self.last_refresh or (dt.now() >= refresh_at)\<close>: the clock is read only
  when \<^verbatim>\<open>last_refresh\<close> is set.\<close>

definition must_refresh :: "env \<Rightarrow> int option \<Rightarrow> ring \<Rightarrow> bool \<times> ring" where
  "must_refresh E ra s =
     (case ra of
        None \<Rightarrow> (True, s)
      | Some t \<Rightarrow> (case now E s of (n, s') \<Rightarrow> (t \<le> n, s')))"

definition get_oauth_token :: "env \<Rightarrow> ring \<Rightarrow> pyval result" where
  "get_oauth_token E s =
     (if \<not> truthy (auth s) then
        (case oauth_call E FetchToken s of
           (Inl e, s1) \<Rightarrow> (Inl e, s1)
         | (Inr a, s1) \<Rightarrow>
             (let s2 = s1\<lparr>auth := a\<rparr> in (subscript (auth s2) ''access_token'', s2)))
      else
        (case refresh_at s of
           Inl e \<Rightarrow> (Inl e, s)
         | Inr ra \<Rightarrow>
             (case must_refresh E ra s of
                (True, s1) \<Rightarrow>
                  (case oauth_call E RefreshTokens s1 of
                     (Inl e, s2) \<Rightarrow> (Inl e, s2)
                   | (Inr a, s2) \<Rightarrow>
                       (case now E (s2\<lparr>auth := a\<rparr>) of
                          (n, s3) \<Rightarrow>
                            (let s4 = s3\<lparr>last_refresh := Some n\<rparr>
                             in (subscript (auth s4) ''access_token'', s4))))
              | (False, s1) \<Rightarrow> (subscript (auth s1) ''access_token'', s1))))"

subsection \<open>\<^verbatim>\<open>_authenticate\<close>\<close>

text \<open>The 201 branch: \<^verbatim>\<open>req.json().get('profile')\<close>, then
  \<^verbatim>\<open>data.get('authentication_token')\<close>.\<close>

definition new_session_token :: "response \<Rightarrow> error + pyval" where
  "new_session_token r =
     (case json_body r of
        None \<Rightarrow> Inl ValueError
      | Some j \<Rightarrow>
          (case py_get j ''profile'' of
             Inl e \<Rightarrow> Inl e
           | Inr data \<Rightarrow> py_get data ''authentication_token''))"

definition session_params :: "env \<Rightarrow> ring \<Rightarrow> dict" where
  "session_params E s = [(''api_version'', API_VERSION E), (''auth_token'', token s)]"

text \<open>What follows a 200 or 201 response, from \<^verbatim>\<open>self.is_connected = True\<close> to
  \<^verbatim>\<open>return True\<close>; \<open>bearer\<close> is the token of the Authorization header built in
  this iteration.\<close>

definition establish :: "env \<Rightarrow> pyval \<Rightarrow> ring \<Rightarrow> bool result" where
  "establish E bearer s =
     (let s1 = s\<lparr>is_connected := Some True, params := Some (session_params E s)\<rparr> in
      case (if persist_token s1 \<and> push_token_notify_url s1 \<noteq> []
            then (case http_request E
                         (PersistPut (API_URI E @ PERSIST_TOKEN_ENDPOINT E) bearer
                            (token s1) (push_token_notify_url s1)) s1 of
                    (Inl e, s2) \<Rightarrow> (Inl e, s2)
                  | (Inr r, s2) \<Rightarrow> (Inr (), s2))
            else (Inr (), s1)) of
        (Inl e, s2) \<Rightarrow> (Inl e, s2)
      | (Inr u, s2) \<Rightarrow>
          (if reuse_session s2 then
             (let c = AList.update ''auth'' (auth s2)
                        (AList.update ''token'' (token s2)
                          (AList.update ''account'' (PStr (username s2)) (cache s2)));
                  s3 = s2\<lparr>cache := c\<rparr>
              in (Inr True, save_cache c s3))
           else (Inr True, s2)))"

definition on_success :: "env \<Rightarrow> pyval \<Rightarrow> response \<Rightarrow> ring \<Rightarrow> bool result" where
  "on_success E bearer r s =
     (if status_code r = 201 then
        (case new_session_token r of
           Inl e \<Rightarrow> (Inl e, s)
         | Inr t \<Rightarrow> establish E bearer (s\<lparr>token := t\<rparr>))
      else establish E bearer s)"

text \<open>
  The loop \<^verbatim>\<open>while loop <= attempts\<close>. \<open>session\<close> is the optional pre-supplied
  response, \<open>req\<close> the response of the previous iteration (unbound before the first).
  After the loop: \<^verbatim>\<open>self.is_connected = False\<close>, \<^verbatim>\<open>req.raise_for_status()\<close>,
  \<^verbatim>\<open>return True\<close>.
\<close>

function authenticate_loop ::
  "env \<Rightarrow> int \<Rightarrow> response option \<Rightarrow> int \<Rightarrow> response option \<Rightarrow> ring \<Rightarrow> bool result" where
  "authenticate_loop E attempts session loop req s =
     (if loop \<le> attempts then
        (case get_oauth_token E s of
           (Inl e, s1) \<Rightarrow> (Inl e, s1)
         | (Inr bearer, s1) \<Rightarrow>
             (case (case session of
                      None \<Rightarrow> http_request E
                                (SessionPost (API_URI E @ NEW_SESSION_ENDPOINT E) bearer) s1
                    | Some r \<Rightarrow> (Inr r, s1)) of
                (Inl e, s2) \<Rightarrow> (Inl e, s2)
              | (Inr r, s2) \<Rightarrow>
                  (if \<not> resp_ok r then
                     authenticate_loop E attempts session (loop + 1) (Some r) (sleep s2)
                   else if status_code r = 200 \<or> status_code r = 201 then
                     on_success E bearer r s2
                   else authenticate_loop E attempts session (loop + 1) (Some r) s2)))
      else
        (let s1 = s\<lparr>is_connected := Some False\<rparr> in
         case req of
           None \<Rightarrow> (Inl UnboundLocalError, s1)
         | Some r \<Rightarrow>
             (if is_http_error r then (Inl (HTTPError (status_code r)), s1)
              else (Inr True, s1))))"
  by pat_completeness auto
termination
  by (relation "measure (\<lambda>(E, attempts, session, loop, req, s). nat (attempts + 1 - loop))")
     auto

definition authenticate :: "env \<Rightarrow> int \<Rightarrow> response option \<Rightarrow> ring \<Rightarrow> bool result" where
  "authenticate E attempts session s =
     authenticate_loop E attempts session 0 None
       (s\<lparr>trace := trace s @ [AuthenticateCall (is_connected s)]\<rparr>)"

section \<open>The query executor\<close>

definition known_method :: "string \<Rightarrow> bool" where
  "known_method m = (m = ''GET'' \<or> m = ''PUT'' \<or> m = ''POST'')"

text \<open>\<^verbatim>\<open>if extra_params: params = self.params; params.update(extra_params)\<close>: the
  session's own dictionary is updated in place.\<close>

definition merge_extra :: "dict option \<Rightarrow> ring \<Rightarrow> error + ring" where
  "merge_extra extra s =
     (case extra of
        None \<Rightarrow> Inr s
      | Some e \<Rightarrow>
          (if e = [] then Inr s
           else (case params s of
                   None \<Rightarrow> Inl AttributeError
                 | Some p \<Rightarrow> Inr (s\<lparr>params := Some (AList.merge p e)\<rparr>))))"

text \<open>One request of the loop. A method other than GET, PUT and POST issues nothing
  and leaves \<^verbatim>\<open>req\<close> unbound; \<^verbatim>\<open>urlencode(None)\<close> raises TypeError.\<close>

definition send_query :: "env \<Rightarrow> string \<Rightarrow> string \<Rightarrow> pyval \<Rightarrow> ring \<Rightarrow> response result" where
  "send_query E url method bearer s =
     (if \<not> known_method method then (Inl UnboundLocalError, s)
      else (case params s of
              None \<Rightarrow> (Inl TypeError, s)
            | Some p \<Rightarrow>
                (case http_request E (QueryRequest method url p bearer) s of
                   (Inl e, s1) \<Rightarrow> (Inl e, s1)
                 | (Inr r, s1) \<Rightarrow>
                     (Inr r, s1\<lparr>trace := trace s1 @ [QueryReply (status_code r)]\<rparr>))))"

text \<open>The value after a 200 or 204 response, just before \<^verbatim>\<open>break\<close>.\<close>

definition query_value :: "string \<Rightarrow> bool \<Rightarrow> response \<Rightarrow> error + qval" where
  "query_value method raw r =
     (if raw then Inr (Raw r)
      else if method = ''GET'' then
        (case json_body r of None \<Rightarrow> Inl ValueError | Some j \<Rightarrow> Inr (Val j))
      else Inr (Val PNone))"

function query_loop ::
  "env \<Rightarrow> string \<Rightarrow> int \<Rightarrow> string \<Rightarrow> bool \<Rightarrow> dict option \<Rightarrow> pyval \<Rightarrow> int \<Rightarrow> ring \<Rightarrow> qval result"
  where
  "query_loop E url attempts method raw extra bearer loop s =
     (if loop \<le> attempts then
        (case merge_extra extra s of
           Inl e \<Rightarrow> (Inl e, s)
         | Inr s1 \<Rightarrow>
             (case send_query E url method bearer s1 of
                (Inl e, s2) \<Rightarrow> (Inl e, s2)
              | (Inr r, s2) \<Rightarrow>
                  (if status_code r = 401 then
                     (case authenticate E (RETRY_TOKEN E) None
                             (s2\<lparr>is_connected := Some False\<rparr>) of
                        (Inl e, s3) \<Rightarrow> (Inl e, s3)
                      | (Inr b, s3) \<Rightarrow>
                          query_loop E url attempts method raw extra bearer (loop + 1) s3)
                   else if status_code r = 200 \<or> status_code r = 204 then
                     (query_value method raw r, s2)
                   else query_loop E url attempts method raw extra bearer (loop + 1) s2)))
      else (Inr (Val PNone), s))"
  by pat_completeness auto
termination
  by (relation "measure (\<lambda>(E, url, attempts, method, raw, extra, bearer, loop, s).
                   nat (attempts + 1 - loop))") auto

text \<open>\<^verbatim>\<open>query\<close>: the re-authentication behind \<^verbatim>\<open>self.debug and not
  self.is_connected\<close>, the Authorization header built once, then the loop. The JSON
  body of a POST only travels to the transport and is left out.\<close>

definition query ::
  "env \<Rightarrow> string \<Rightarrow> int \<Rightarrow> string \<Rightarrow> bool \<Rightarrow> dict option \<Rightarrow> ring \<Rightarrow> qval result" where
  "query E url attempts method raw extra s =
     (case (if debug s \<and> is_connected s \<noteq> Some True
            then authenticate E (RETRY_TOKEN E) None s
            else (Inr True, s)) of
        (Inl e, s1) \<Rightarrow> (Inl e, s1)
      | (Inr b, s1) \<Rightarrow>
          (case get_oauth_token E s1 of
             (Inl e, s2) \<Rightarrow> (Inl e, s2)
           | (Inr bearer, s2) \<Rightarrow>
               query_loop E url attempts method raw extra bearer 0 s2))"

section \<open>Construction of the session\<close>

text \<open>\<^verbatim>\<open>_process_cached_session\<close>. The three tests of the condition are evaluated
  left to right, so \<^verbatim>\<open>self.cache['account']\<close> is read only when the token is not
  \<^verbatim>\<open>None\<close>.\<close>

definition process_cached_session :: "env \<Rightarrow> ring \<Rightarrow> bool result" where
  "process_cached_session E s =
     (if exists_cache s then
        (let s1 = s\<lparr>cache := read_cache s\<rparr> in
         case subscript (PDict (cache s1)) ''token'' of
           Inl e \<Rightarrow> (Inl e, s1)
         | Inr t \<Rightarrow>
             (if t = PNone then authenticate E (RETRY_TOKEN E) None s1
              else
                (case subscript (PDict (cache s1)) ''account'' of
                   Inl e \<Rightarrow> (Inl e, s1)
                 | Inr a \<Rightarrow>
                     (if a = PNone \<or> a \<noteq> PStr (username s1)
                      then authenticate E (RETRY_TOKEN E) None s1
                      else
                        (let s2 = s1\<lparr>token := t\<rparr>;
                             s3 = s2\<lparr>params := Some (session_params E s2)\<rparr>;
                             s4 = (case map_of (cache s3) ''auth'' of
                                     None \<Rightarrow> s3
                                   | Some a \<Rightarrow> s3\<lparr>auth := a\<rparr>)
                         in case query E (API_URI E @ DEVICES_ENDPOINT E) (RETRY_TOKEN E)
                                   ''GET'' True None s4 of
                              (Inl e, s5) \<Rightarrow> (Inl e, s5)
                            | (Inr (Raw r), s5) \<Rightarrow>
                                (if resp_ok r \<and> status_code r = 200
                                 then authenticate E (RETRY_TOKEN E) (Some r) s5
                                 else authenticate E (RETRY_TOKEN E) None s5)
                            | (Inr (Val v), s5) \<Rightarrow>
                                authenticate E (RETRY_TOKEN E) None s5)))))
      else authenticate E (RETRY_TOKEN E) None s)"

text \<open>\<^verbatim>\<open>Ring.__init__\<close>, in a world whose cache file holds \<open>store\<close>. The
  authentication callback only travels to \<^verbatim>\<open>fetch_token\<close> and is left out.\<close>

definition new_ring ::
  "env \<Rightarrow> string \<Rightarrow> string \<Rightarrow> bool \<Rightarrow> bool \<Rightarrow> string \<Rightarrow> bool \<Rightarrow> dict option \<Rightarrow> ring" where
  "new_ring E user pass dbg persist notify_url reuse store =
     \<lparr>is_connected = None, token = PNone, params = None, persist_token = persist,
      push_token_notify_url = notify_url, debug = dbg, username = user, password = pass,
      auth = PNone, last_refresh = None,
      cache = AList.update ''account'' (PStr user) (CACHE_ATTRS E),
      reuse_session = reuse, http_n = 0, oauth_n = 0, clock_n = 0,
      cache_store = store, trace = []\<rparr>"

definition ring_init ::
  "env \<Rightarrow> string \<Rightarrow> string \<Rightarrow> bool \<Rightarrow> bool \<Rightarrow> string \<Rightarrow> bool \<Rightarrow> dict option \<Rightarrow> bool result" where
  "ring_init E user pass dbg persist notify_url reuse store =
     (let s = new_ring E user pass dbg persist notify_url reuse store
      in if reuse_session s then process_cached_session E s
         else authenticate E (RETRY_TOKEN E) None s)"

section \<open>Reading the trace\<close>

fun is_auth_call :: "event \<Rightarrow> bool" where
  "is_auth_call (AuthenticateCall c) = True"
| "is_auth_call _ = False"

fun is_query_request :: "event \<Rightarrow> bool" where
  "is_query_request (QueryRequest m u p b) = True"
| "is_query_request _ = False"

fun is_query_event :: "event \<Rightarrow> bool" where
  "is_query_event (QueryRequest m u p b) = True"
| "is_query_event (QueryReply c) = True"
| "is_query_event _ = False"

fun is_session_post :: "event \<Rightarrow> bool" where
  "is_session_post (SessionPost u b) = True"
| "is_session_post _ = False"

text \<open>The events of \<^verbatim>\<open>_get_oauth_token\<close> and of the body of \<^verbatim>\<open>_authenticate\<close>.\<close>

definition session_event :: "event \<Rightarrow> bool" where
  "session_event e = (\<not> is_auth_call e \<and> \<not> is_query_event e)"

text \<open>The events added to the trace between two states.\<close>

definition new_events :: "ring \<Rightarrow> ring \<Rightarrow> event list" where
  "new_events s s' = drop (length (trace s)) (trace s')"

text \<open>\<open>prompted prev es\<close>: every entry into \<^verbatim>\<open>_authenticate\<close> in \<open>es\<close> comes
  directly after a 401 reply to a request of \<^verbatim>\<open>query\<close>; \<open>prev\<close> is the event
  before \<open>es\<close>, if any.\<close>

fun prompted :: "event option \<Rightarrow> event list \<Rightarrow> bool" where
  "prompted prev [] = True"
| "prompted prev (e # es) =
     ((if is_auth_call e then prev = Some (QueryReply 401) else True) \<and> prompted (Some e) es)"

text \<open>\<open>answered es\<close>: every 401 reply in \<open>es\<close> is directly followed by an entry into
  \<^verbatim>\<open>_authenticate\<close> made with \<^verbatim>\<open>is_connected\<close> false.\<close>

fun answered :: "event list \<Rightarrow> bool" where
  "answered [] = True"
| "answered [e] = (e \<noteq> QueryReply 401)"
| "answered (e # e' # es) =
     ((if e = QueryReply 401 then e' = AuthenticateCall (Some False) else True)
      \<and> answered (e' # es))"

text \<open>\<open>grows P s s'\<close>: the trace of \<open>s'\<close> is the trace of \<open>s\<close> followed by events that
  all satisfy \<open>P\<close>.\<close>

definition grows :: "(event \<Rightarrow> bool) \<Rightarrow> ring \<Rightarrow> ring \<Rightarrow> bool" where
  "grows P s s' = (\<exists>xs. trace s' = trace s @ xs \<and> list_all P xs)"

text \<open>Events other than a POST to the new-session endpoint.\<close>

definition quiet :: "event \<Rightarrow> bool" where
  "quiet e = (\<not> is_session_post e)"

section \<open>Example worlds\<close>

text \<open>A well-formed OAuth token dictionary, a response without a body and the 201
  response of the new-session endpoint.\<close>

definition example_oauth :: "string \<Rightarrow> pyval" where
  "example_oauth a = PDict [(''access_token'', PStr a), (''expires_in'', PInt 3600)]"

definition status_only :: "int \<Rightarrow> http_outcome" where
  "status_only c = Responds \<lparr>status_code = c, json_body = None\<rparr>"

definition created :: "string \<Rightarrow> http_outcome" where
  "created t =
     Responds \<lparr>status_code = 201,
       json_body = Some (PDict [(''profile'', PDict [(''authentication_token'', PStr t)])])\<rparr>"

text \<open>Transports: one that answers every request with the same status, one that
  fails on every request, and one that answers 401 to every even request and 201 with
  a fresh session token to every odd one.\<close>

definition always :: "int \<Rightarrow> nat \<Rightarrow> http_outcome" where
  "always c n = status_only c"

definition unreachable :: "nat \<Rightarrow> http_outcome" where
  "unreachable n = Fails"

definition rejecting :: "nat \<Rightarrow> http_outcome" where
  "rejecting n = (if even n then status_only 401 else created ''S'')"

text \<open>A world with the given transport: the OAuth helper hands out token \<open>A\<close> first
  and \<open>B\<close> afterwards, the clock advances one second per reading.\<close>

definition example_env :: "(nat \<Rightarrow> http_outcome) \<Rightarrow> env" where
  "example_env h =
     \<lparr>http = h,
      oauth = (\<lambda>n. Inr (example_oauth (if n = 0 then ''A'' else ''B''))),
      clock = (\<lambda>n. int n),
      API_VERSION = PStr ''9'', API_URI = ''https://api'',
      NEW_SESSION_ENDPOINT = ''/session'', DEVICES_ENDPOINT = ''/devices'',
      PERSIST_TOKEN_ENDPOINT = ''/device'', RETRY_TOKEN = 1,
      CACHE_ATTRS = [(''account'', PNone), (''alerts'', PNone), (''token'', PNone),
                     (''auth'', PNone)]\<rparr>"

text \<open>A session object before any authentication, and one that is connected with
  session token \<open>T\<close> and an OAuth token refreshed at time 0.\<close>

definition example_fresh :: "(nat \<Rightarrow> http_outcome) \<Rightarrow> ring" where
  "example_fresh h = new_ring (example_env h) ''user'' ''secret'' False False [] False None"

definition example_connected :: "(nat \<Rightarrow> http_outcome) \<Rightarrow> ring" where
  "example_connected h =
     (example_fresh h)\<lparr>is_connected := Some True, token := PStr ''T'',
        params := Some (session_params (example_env h) ((example_fresh h)\<lparr>token := PStr ''T''\<rparr>)),
        auth := example_oauth ''A'', last_refresh := Some 0\<rparr>"

text \<open>A transport that answers every request with 200 and a device listing.\<close>

definition devices_ok :: "nat \<Rightarrow> http_outcome" where
  "devices_ok n =
     Responds \<lparr>status_code = 200, json_body = Some (PDict [(''doorbots'', PList [])])\<rparr>"

section \<open>Frame and trace lemmas\<close>

declare authenticate_loop.simps [simp del] query_loop.simps [simp del]

lemmas example_defs = example_oauth_def status_only_def created_def always_def
  unreachable_def rejecting_def example_env_def example_fresh_def example_connected_def
  new_ring_def session_params_def

lemmas token_defs = get_oauth_token_def oauth_call_def now_def must_refresh_def
  refresh_at_def



section \<open>The OAuth token is reused while it is valid\<close>





section \<open>The cache record at construction\<close>




section \<open>Running out of attempts\<close>

lemmas run_defs = authenticate_def authenticate_loop.simps query_def query_loop.simps
  http_request_def sleep_def on_success_def establish_def new_session_token_def
  save_cache_def merge_extra_def send_query_def query_value_def known_method_def
  resp_ok_def is_http_error_def Let_def

text \<open>
  C3 at a transport that answers 204 to every request: with \<^verbatim>\<open>attempts = 1\<close> the
  loop of \<^verbatim>\<open>_authenticate\<close> posts twice, never sees 200 or 201, sets
  \<^verbatim>\<open>is_connected\<close> to false, and \<^verbatim>\<open>raise_for_status()\<close> does not raise for a
  status below 400, so the call returns \<^verbatim>\<open>True\<close>.
\<close>

theorem authenticate_returns_on_no_content:
  "fst (authenticate (example_env (always 204)) 1 None (example_fresh (always 204))) = Inr True \<and>
   is_connected (snd (authenticate (example_env (always 204)) 1 None (example_fresh (always 204))))
     = Some False \<and>
   trace (snd (authenticate (example_env (always 204)) 1 None (example_fresh (always 204)))) =
     [AuthenticateCall None, FetchToken, SessionPost ''https://api/session'' (PStr ''A''),
      RefreshTokens, SessionPost ''https://api/session'' (PStr ''B'')]"
  by (simp add: run_defs example_defs token_defs)

text \<open>The example of the claim, a transport that answers 500 to every request: the
  HTTP error is raised and \<^verbatim>\<open>is_connected\<close> is false.\<close>

lemma authenticate_raises_on_server_error:
  "fst (authenticate (example_env (always 500)) 1 None (example_fresh (always 500)))
     = Inl (HTTPError 500) \<and>
   is_connected (snd (authenticate (example_env (always 500)) 1 None (example_fresh (always 500))))
     = Some False"
  by (simp add: run_defs example_defs token_defs)

text \<open>
  C1 with \<^verbatim>\<open>attempts = 1\<close> at a transport that answers 401 to every request of
  \<^verbatim>\<open>query\<close> and 201 to every new-session POST: the loop \<^verbatim>\<open>while loop <= attempts\<close>
  issues two requests. Each 401 is followed by one entry into \<^verbatim>\<open>_authenticate\<close>
  with \<^verbatim>\<open>is_connected\<close> false; the second request carries the new session token
  \<open>S\<close> in its parameters and the Authorization header built before the loop.
\<close>

theorem query_issues_one_request_too_many:
  "fst (query (example_env rejecting) ''https://api/devices'' 1 ''GET'' False None
          (example_connected rejecting)) = Inr (Val PNone) \<and>
   trace (snd (query (example_env rejecting) ''https://api/devices'' 1 ''GET'' False None
          (example_connected rejecting))) =
     [QueryRequest ''GET'' ''https://api/devices''
        [(''api_version'', PStr ''9''), (''auth_token'', PStr ''T'')] (PStr ''A''),
      QueryReply 401, AuthenticateCall (Some False),
      SessionPost ''https://api/session'' (PStr ''A''),
      QueryRequest ''GET'' ''https://api/devices''
        [(''api_version'', PStr ''9''), (''auth_token'', PStr ''S'')] (PStr ''A''),
      QueryReply 401, AuthenticateCall (Some False),
      SessionPost ''https://api/session'' (PStr ''A'')]"
  by (simp add: run_defs example_defs token_defs)

section \<open>Only GET responses are decoded\<close>

lemma merge_extra_present:
  assumes "params s \<noteq> None"
  shows "\<exists>s1. merge_extra extra s = Inr s1 \<and> params s1 \<noteq> None \<and> http_n s1 = http_n s \<and>
              trace s1 = trace s"
  using assms by (auto simp: merge_extra_def split: option.splits)

lemma query_loop_on_200:
  assumes "loop \<le> attempts" and "params s \<noteq> None" and "known_method method"
    and "http E (http_n s) = Responds r" and "status_code r = 200"
  shows "fst (query_loop E url attempts method False extra bearer loop s) =
           (if method = ''GET''
            then (case json_body r of None \<Rightarrow> Inl ValueError | Some j \<Rightarrow> Inr (Val j))
            else Inr (Val PNone))"
proof -
  obtain s1 where m: "merge_extra extra s = Inr s1" "params s1 \<noteq> None" "http_n s1 = http_n s"
    using merge_extra_present [OF assms(2)] by blast
  then obtain p where p: "params s1 = Some p" by auto
  show ?thesis
    using assms(1,3,4,5) m p
    by (subst query_loop.simps)
       (simp add: send_query_def http_request_def query_value_def Let_def)
qed

text \<open>
  C5: once the call has reached its loop (the re-authentication of debug mode, if any,
  and the token production have returned), the session parameters are set and the
  transport answers the request with status 200, a \<^verbatim>\<open>query\<close> without
  \<^verbatim>\<open>raw\<close> returns the decoded JSON body for GET (\<^verbatim>\<open>json()\<close> raises ValueError
  when the body does not decode) and \<^verbatim>\<open>None\<close> for POST and PUT, whatever the
  body is. Lemma \<open>query_loop_on_200\<close> is the same fact at any iteration of the loop.
\<close>

theorem query_decodes_json_only_for_get:
  assumes pre: "(if debug s \<and> is_connected s \<noteq> Some True
                 then authenticate E (RETRY_TOKEN E) None s else (Inr True, s)) = (Inr b, s0)"
    and tok: "get_oauth_token E s0 = (Inr bearer, s1)"
    and par: "params s1 \<noteq> None"
    and att: "0 \<le> attempts"
    and rsp: "http E (http_n s1) = Responds r" "status_code r = 200"
  shows "fst (query E url attempts ''GET'' False extra s) =
           (case json_body r of None \<Rightarrow> Inl ValueError | Some j \<Rightarrow> Inr (Val j)) \<and>
         fst (query E url attempts ''POST'' False extra s) = Inr (Val PNone) \<and>
         fst (query E url attempts ''PUT'' False extra s) = Inr (Val PNone)"
proof -
  have q: "query E url attempts m False extra s =
             query_loop E url attempts m False extra bearer 0 s1" for m
    using pre tok by (simp add: query_def)
  show ?thesis
    using query_loop_on_200 [OF att par _ rsp, of "''GET''" url extra bearer]
      query_loop_on_200 [OF att par _ rsp, of "''POST''" url extra bearer]
      query_loop_on_200 [OF att par _ rsp, of "''PUT''" url extra bearer]
    by (simp add: q known_method_def)
qed

theorem query_decodes_json_only_for_get_witness:
  "fst (query (example_env devices_ok) ''https://api/devices'' 1 ''GET'' False None
          (example_connected devices_ok)) = Inr (Val (PDict [(''doorbots'', PList [])])) \<and>
   fst (query (example_env devices_ok) ''https://api/devices'' 1 ''POST'' False None
          (example_connected devices_ok)) = Inr (Val PNone) \<and>
   fst (query (example_env devices_ok) ''https://api/devices'' 1 ''PUT'' False None
          (example_connected devices_ok)) = Inr (Val PNone)"
  using query_decodes_json_only_for_get
    [of "example_connected devices_ok" "example_env devices_ok" True
        "example_connected devices_ok" "PStr ''A''"
        "(example_connected devices_ok)\<lparr>clock_n := 1\<rparr>" 1
        "\<lparr>status_code = 200, json_body = Some (PDict [(''doorbots'', PList [])])\<rparr>"
        "''https://api/devices''" None]
  by (simp add: example_defs token_defs devices_ok_def)

section \<open>What a call adds to the trace\<close>

lemma grows_refl: "grows P s s"
  by (simp add: grows_def)

lemma grows_trans: "grows P a b \<Longrightarrow> grows P b c \<Longrightarrow> grows P a c"
  by (auto simp: grows_def)

lemma grows_same_trace: "trace s' = trace s \<Longrightarrow> grows P s s'"
  by (simp add: grows_def)

lemma grows_one: "trace s' = trace s @ [e] \<Longrightarrow> P e \<Longrightarrow> grows P s s'"
  by (simp add: grows_def)

lemma get_oauth_token_grows:
  assumes "get_oauth_token E s = (r, s')"
  shows "grows session_event s s'"
  using assms
  by (auto simp: token_defs Let_def session_event_def grows_def
      split: if_splits sum.splits prod.splits option.splits bool.splits)

lemma http_request_trace:
  "http_request E ev s = (r, s') \<Longrightarrow> trace s' = trace s @ [ev]"
  by (auto simp: http_request_def Let_def split: http_outcome.splits)

lemma establish_grows:
  assumes "establish E b s = (r, s')"
  shows "grows session_event s s'"
  using assms
  by (auto simp: establish_def http_request_def save_cache_def Let_def session_event_def grows_def
      split: if_splits sum.splits prod.splits http_outcome.splits)

lemma on_success_grows:
  assumes "on_success E b r s = (x, s')"
  shows "grows session_event s s'"
proof (cases "status_code r = 201")
  case False
  then show ?thesis using assms by (auto simp: on_success_def dest: establish_grows)
next
  case True
  show ?thesis
  proof (cases "new_session_token r")
    case (Inl e)
    then show ?thesis using assms True by (auto simp: on_success_def grows_refl)
  next
    case (Inr t)
    then have "grows session_event (s\<lparr>token := t\<rparr>) s'"
      using assms True by (auto simp: on_success_def dest: establish_grows)
    then show ?thesis by (simp add: grows_def)
  qed
qed

lemma authenticate_loop_grows:
  "authenticate_loop E attempts session loop req s = (x, s') \<Longrightarrow> grows session_event s s'"
proof (induction E attempts session loop req s arbitrary: x s' rule: authenticate_loop.induct)
  case (1 E attempts session loop req s)
  show ?case
  proof (cases "loop \<le> attempts")
    case False
    then have "trace s' = trace s"
      using "1.prems" by (subst (asm) authenticate_loop.simps) (auto simp: Let_def split: option.splits if_splits)
    then show ?thesis by (rule grows_same_trace)
  next
    case True
    obtain t s1 where g: "get_oauth_token E s = (t, s1)" by (cases "get_oauth_token E s")
    have g1: "grows session_event s s1" using g by (rule get_oauth_token_grows)
    show ?thesis
    proof (cases t)
      case (Inl e)
      then have "s' = s1" using "1.prems" True g
        by (subst (asm) authenticate_loop.simps) simp
      then show ?thesis using g1 by simp
    next
      case (Inr bearer)
      obtain q s2 where h: "(case session of
               None \<Rightarrow> http_request E (SessionPost (API_URI E @ NEW_SESSION_ENDPOINT E) bearer) s1
             | Some r \<Rightarrow> (Inr r, s1)) = (q, s2)"
        by (cases "(case session of
               None \<Rightarrow> http_request E (SessionPost (API_URI E @ NEW_SESSION_ENDPOINT E) bearer) s1
             | Some r \<Rightarrow> (Inr r, s1))")
      have g2: "grows session_event s1 s2"
        using h by (auto simp: session_event_def grows_def split: option.splits
            dest!: http_request_trace)
      have g12: "grows session_event s s2" using g1 g2 by (rule grows_trans)
      show ?thesis
      proof (cases q)
        case (Inl e)
        then have "s' = s2" using "1.prems" True g Inr h
          by (subst (asm) authenticate_loop.simps) simp
        then show ?thesis using g12 by simp
      next
        case r: (Inr r)
        consider (bad) "\<not> resp_ok r" | (good) "resp_ok r" "status_code r = 200 \<or> status_code r = 201"
          | (other) "resp_ok r" "\<not> (status_code r = 200 \<or> status_code r = 201)" by blast
        then show ?thesis
        proof cases
          case bad
          then have "authenticate_loop E attempts session (loop + 1) (Some r) (sleep s2) = (x, s')"
            using "1.prems" True g Inr h r
            by (subst (asm) authenticate_loop.simps) simp
          then have "grows session_event (sleep s2) s'"
            using "1.IH"(1) [OF True g [symmetric] Inr h [symmetric] r bad] by simp
          moreover have "grows session_event s2 (sleep s2)"
            by (simp add: sleep_def grows_def session_event_def)
          ultimately show ?thesis using g12 by (blast intro: grows_trans)
        next
          case good
          then have "on_success E bearer r s2 = (x, s')"
            using "1.prems" True g Inr h r
            by (subst (asm) authenticate_loop.simps) simp
          then show ?thesis using g12 by (blast intro: grows_trans dest: on_success_grows)
        next
          case other
          then have "authenticate_loop E attempts session (loop + 1) (Some r) s2 = (x, s')"
            using "1.prems" True g Inr h r
            by (subst (asm) authenticate_loop.simps) simp
          then have "grows session_event s2 s'"
            using "1.IH"(2) [OF True g [symmetric] Inr h [symmetric] r _ other(2)] other(1) by simp
          then show ?thesis using g12 by (blast intro: grows_trans)
        qed
      qed
    qed
  qed
qed

section \<open>Re-authentication inside a query\<close>

lemma authenticate_trace:
  assumes "authenticate E a sess s = (x, s')"
  shows "\<exists>xs. trace s' = trace s @ AuthenticateCall (is_connected s) # xs \<and>
              list_all session_event xs"
  using authenticate_loop_grows [OF assms [unfolded authenticate_def]]
  by (auto simp: grows_def)

lemma merge_extra_Inr:
  "merge_extra extra s = Inr s1 \<Longrightarrow> s1 = s\<lparr>params := params s1\<rparr>"
  by (auto simp: merge_extra_def split: option.splits if_splits)

lemma send_query_Inr:
  assumes "send_query E url m b s = (Inr r, s')"
  shows "\<exists>p. params s = Some p \<and> known_method m \<and> http E (http_n s) = Responds r \<and>
             s' = s\<lparr>http_n := Suc (http_n s),
                    trace := trace s @ [QueryRequest m url p b, QueryReply (status_code r)]\<rparr>"
  using assms
  by (auto simp: send_query_def http_request_def Let_def
      split: if_splits option.splits http_outcome.splits)

lemma send_query_Inl:
  assumes "send_query E url m b s = (Inl e, s')"
  shows "trace s' = trace s \<or> (\<exists>p. trace s' = trace s @ [QueryRequest m url p b])"
proof (cases "known_method m")
  case False
  then show ?thesis using assms by (simp add: send_query_def)
next
  case k: True
  show ?thesis
  proof (cases "params s")
    case None
    then show ?thesis using assms k by (simp add: send_query_def)
  next
    case (Some p)
    obtain q t where h: "http_request E (QueryRequest m url p b) s = (q, t)"
      by (cases "http_request E (QueryRequest m url p b) s")
    then have "s' = t" using assms k Some by (cases q) (simp_all add: send_query_def)
    then show ?thesis using http_request_trace [OF h] by simp
  qed
qed

lemma query_loop_step:
  assumes run: "query_loop E url attempts method raw extra bearer loop s = (x, s')"
  obtains
    (exhausted) "\<not> loop \<le> attempts" "x = Inr (Val PNone)" "s' = s"
  | (merge_failed) e where "loop \<le> attempts" "merge_extra extra s = Inl e" "x = Inl e" "s' = s"
  | (send_failed) s1 e where "loop \<le> attempts" "merge_extra extra s = Inr s1"
      "send_query E url method bearer s1 = (Inl e, s')" "x = Inl e"
  | (reauth_failed) s1 r s2 e where "loop \<le> attempts" "merge_extra extra s = Inr s1"
      "send_query E url method bearer s1 = (Inr r, s2)" "status_code r = 401"
      "authenticate E (RETRY_TOKEN E) None (s2\<lparr>is_connected := Some False\<rparr>) = (Inl e, s')"
      "x = Inl e"
  | (reauth) s1 r s2 b s3 where "loop \<le> attempts" "merge_extra extra s = Inr s1"
      "send_query E url method bearer s1 = (Inr r, s2)" "status_code r = 401"
      "authenticate E (RETRY_TOKEN E) None (s2\<lparr>is_connected := Some False\<rparr>) = (Inr b, s3)"
      "query_loop E url attempts method raw extra bearer (loop + 1) s3 = (x, s')"
  | (answer) s1 r where "loop \<le> attempts" "merge_extra extra s = Inr s1"
      "send_query E url method bearer s1 = (Inr r, s')"
      "status_code r = 200 \<or> status_code r = 204" "x = query_value method raw r"
  | (other) s1 r s2 where "loop \<le> attempts" "merge_extra extra s = Inr s1"
      "send_query E url method bearer s1 = (Inr r, s2)" "status_code r \<noteq> 401"
      "\<not> (status_code r = 200 \<or> status_code r = 204)"
      "query_loop E url attempts method raw extra bearer (loop + 1) s2 = (x, s')"
proof (cases "loop \<le> attempts")
  case False
  then have "query_loop E url attempts method raw extra bearer loop s = (Inr (Val PNone), s)"
    by (subst query_loop.simps) simp
  then have "x = Inr (Val PNone)" "s' = s" using run by simp_all
  then show ?thesis using False by (intro exhausted)
next
  case le: True
  have unfold: "query_loop E url attempts method raw extra bearer loop s =
        (case merge_extra extra s of
           Inl e \<Rightarrow> (Inl e, s)
         | Inr s1 \<Rightarrow>
             (case send_query E url method bearer s1 of
                (Inl e, s2) \<Rightarrow> (Inl e, s2)
              | (Inr r, s2) \<Rightarrow>
                  (if status_code r = 401 then
                     (case authenticate E (RETRY_TOKEN E) None
                             (s2\<lparr>is_connected := Some False\<rparr>) of
                        (Inl e, s3) \<Rightarrow> (Inl e, s3)
                      | (Inr b, s3) \<Rightarrow>
                          query_loop E url attempts method raw extra bearer (loop + 1) s3)
                   else if status_code r = 200 \<or> status_code r = 204 then
                     (query_value method raw r, s2)
                   else query_loop E url attempts method raw extra bearer (loop + 1) s2)))"
    using le by (subst query_loop.simps) simp
  show ?thesis
  proof (cases "merge_extra extra s")
    case (Inl e)
    then have "x = Inl e" "s' = s" using run unfold by simp_all
    then show ?thesis using le Inl by (intro merge_failed)
  next
    case m: (Inr s1)
    obtain q s2 where sq: "send_query E url method bearer s1 = (q, s2)"
      by (cases "send_query E url method bearer s1")
    show ?thesis
    proof (cases q)
      case (Inl e)
      then have "x = Inl e" "s' = s2" using run unfold m sq by simp_all
      then show ?thesis using le m sq Inl by (intro send_failed) simp_all
    next
      case r: (Inr r)
      consider (a) "status_code r = 401" | (b) "status_code r \<noteq> 401" "status_code r = 200 \<or> status_code r = 204"
        | (c) "status_code r \<noteq> 401" "\<not> (status_code r = 200 \<or> status_code r = 204)" by blast
      then show ?thesis
      proof cases
        case a
        obtain y s3 where au: "authenticate E (RETRY_TOKEN E) None (s2\<lparr>is_connected := Some False\<rparr>) = (y, s3)"
          by (cases "authenticate E (RETRY_TOKEN E) None (s2\<lparr>is_connected := Some False\<rparr>)")
        show ?thesis
        proof (cases y)
          case (Inl e)
          then have "x = Inl e" "s' = s3" using run unfold m sq r a au by simp_all
          then show ?thesis using le m sq r a au Inl by (intro reauth_failed) simp_all
        next
          case (Inr b)
          then have "query_loop E url attempts method raw extra bearer (loop + 1) s3 = (x, s')"
            using run unfold m sq r a au by simp
          then show ?thesis using le m sq r a au Inr by (intro reauth) simp_all
        qed
      next
        case b
        then have "x = query_value method raw r" "s' = s2"
          using run unfold m sq r by simp_all
        then show ?thesis using le m sq r b by (intro answer) simp_all
      next
        case c
        then have "query_loop E url attempts method raw extra bearer (loop + 1) s2 = (x, s')"
          using run unfold m sq r by simp
        then show ?thesis using le m sq r c by (intro other) simp_all
      qed
    qed
  qed
qed

lemma prompted_session: "list_all session_event xs \<Longrightarrow> prompted p xs"
  by (induction xs arbitrary: p) (auto simp: session_event_def)

lemma prompted_append:
  "prompted p (xs @ ys) = (prompted p xs \<and> prompted (if xs = [] then p else Some (last xs)) ys)"
  by (induction xs arbitrary: p) auto

lemma query_loop_prompted:
  "query_loop E url attempts method raw extra bearer loop s = (x, s') \<Longrightarrow>
     \<exists>xs. trace s' = trace s @ xs \<and> (\<forall>p. prompted p xs)"
proof (induction "nat (attempts + 1 - loop)" arbitrary: loop s rule: less_induct)
  case less
  from less.prems show ?case
  proof (cases rule: query_loop_step)
    case exhausted
    then show ?thesis by simp
  next
    case (merge_failed e)
    then show ?thesis by simp
  next
    case (send_failed s1 e)
    have "trace s1 = trace s" using merge_extra_Inr [OF send_failed(2)]
      by (metis ring.select_convs(17) ring.surjective ring.update_convs(3))
    then show ?thesis using send_query_Inl [OF send_failed(3)] by auto
  next
    case (reauth_failed s1 r s2 e)
    have t1: "trace s1 = trace s" using merge_extra_Inr [OF reauth_failed(2)]
      by (metis ring.select_convs(17) ring.surjective ring.update_convs(3))
    obtain p where t2: "trace s2 = trace s1 @ [QueryRequest method url p bearer, QueryReply 401]"
      using send_query_Inr [OF reauth_failed(3)] reauth_failed(4) by auto
    obtain as where t3: "trace s' = trace s2 @ AuthenticateCall (Some False) # as"
      "list_all session_event as"
      using authenticate_trace [OF reauth_failed(5)] by auto
    show ?thesis using t1 t2 t3 by (auto simp: prompted_session)
  next
    case (reauth s1 r s2 b s3)
    have t1: "trace s1 = trace s" using merge_extra_Inr [OF reauth(2)]
      by (metis ring.select_convs(17) ring.surjective ring.update_convs(3))
    obtain p where t2: "trace s2 = trace s1 @ [QueryRequest method url p bearer, QueryReply 401]"
      using send_query_Inr [OF reauth(3)] reauth(4) by auto
    obtain as where t3: "trace s3 = trace s2 @ AuthenticateCall (Some False) # as"
      "list_all session_event as"
      using authenticate_trace [OF reauth(5)] by auto
    have "nat (attempts + 1 - (loop + 1)) < nat (attempts + 1 - loop)" using reauth(1) by simp
    from less.hyps [OF this reauth(6)]
    obtain ys where t4: "trace s' = trace s3 @ ys" "\<forall>p. prompted p ys" by auto
    have "trace s' = trace s @ ([QueryRequest method url p bearer, QueryReply 401]
            @ AuthenticateCall (Some False) # as) @ ys"
      using t1 t2 t3 t4 by simp
    moreover have "\<forall>q. prompted q (([QueryRequest method url p bearer, QueryReply 401]
            @ AuthenticateCall (Some False) # as) @ ys)"
      using t3(2) t4(2) by (subst prompted_append) (simp add: prompted_session)
    ultimately show ?thesis by blast
  next
    case (answer s1 r)
    have t1: "trace s1 = trace s" using merge_extra_Inr [OF answer(2)]
      by (metis ring.select_convs(17) ring.surjective ring.update_convs(3))
    then show ?thesis using send_query_Inr [OF answer(3)] by auto
  next
    case (other s1 r s2)
    have t1: "trace s1 = trace s" using merge_extra_Inr [OF other(2)]
      by (metis ring.select_convs(17) ring.surjective ring.update_convs(3))
    obtain p where t2: "trace s2 = trace s1 @ [QueryRequest method url p bearer, QueryReply (status_code r)]"
      using send_query_Inr [OF other(3)] by auto
    have "nat (attempts + 1 - (loop + 1)) < nat (attempts + 1 - loop)" using other(1) by simp
    from less.hyps [OF this other(6)]
    obtain ys where t4: "trace s' = trace s2 @ ys" "\<forall>p. prompted p ys" by auto
    have "trace s' = trace s @ [QueryRequest method url p bearer, QueryReply (status_code r)] @ ys"
      using t1 t2 t4 by simp
    moreover have "\<forall>q. prompted q ([QueryRequest method url p bearer, QueryReply (status_code r)] @ ys)"
      using t4(2) by simp
    ultimately show ?thesis by blast
  qed
qed


lemma query_loop_trace:
  assumes "query_loop E url attempts method raw extra bearer loop s = (x, s')"
  shows "\<exists>xs. trace s' = trace s @ xs"
  using query_loop_prompted [OF assms] by blast

text \<open>
  C10: with debug mode off, every entry into \<^verbatim>\<open>_authenticate\<close> during a
  \<^verbatim>\<open>query\<close> call comes directly after a 401 reply to a request of that call,
  whatever \<^verbatim>\<open>is_connected\<close> is; with debug mode on and \<^verbatim>\<open>is_connected\<close> not
  true, the first thing the call does is to enter \<^verbatim>\<open>_authenticate\<close>.
\<close>

theorem reauthentication_before_request_only_in_debug:
  "(\<not> debug s \<longrightarrow>
      (\<exists>xs. trace (snd (query E url attempts method raw extra s)) = trace s @ xs \<and>
            prompted None xs)) \<and>
   (debug s \<and> is_connected s \<noteq> Some True \<longrightarrow>
      (\<exists>xs. trace (snd (query E url attempts method raw extra s)) =
            trace s @ AuthenticateCall (is_connected s) # xs))"
proof (intro conjI impI)
  assume nd: "\<not> debug s"
  obtain t s1 where g: "get_oauth_token E s = (t, s1)" by (cases "get_oauth_token E s")
  obtain ts where ts: "trace s1 = trace s @ ts" "list_all session_event ts"
    using get_oauth_token_grows [OF g] by (auto simp: grows_def)
  show "\<exists>xs. trace (snd (query E url attempts method raw extra s)) = trace s @ xs \<and>
            prompted None xs"
  proof (cases t)
    case (Inl e)
    then have "snd (query E url attempts method raw extra s) = s1"
      using nd g by (simp add: query_def)
    then show ?thesis using ts by (auto simp: prompted_session)
  next
    case (Inr bearer)
    obtain x s' where q: "query_loop E url attempts method raw extra bearer 0 s1 = (x, s')"
      by (cases "query_loop E url attempts method raw extra bearer 0 s1")
    obtain ys where ys: "trace s' = trace s1 @ ys" "\<forall>p. prompted p ys"
      using query_loop_prompted [OF q] by blast
    have "snd (query E url attempts method raw extra s) = s'"
      using nd g Inr q by (simp add: query_def)
    moreover have "prompted None (ts @ ys)"
      using ts(2) ys(2) by (simp add: prompted_append prompted_session)
    ultimately show ?thesis using ts(1) ys(1) by auto
  qed
next
  assume d: "debug s \<and> is_connected s \<noteq> Some True"
  obtain y s0 where a: "authenticate E (RETRY_TOKEN E) None s = (y, s0)"
    by (cases "authenticate E (RETRY_TOKEN E) None s")
  obtain as where as: "trace s0 = trace s @ AuthenticateCall (is_connected s) # as"
    using authenticate_trace [OF a] by blast
  show "\<exists>xs. trace (snd (query E url attempts method raw extra s)) =
            trace s @ AuthenticateCall (is_connected s) # xs"
  proof (cases y)
    case (Inl e)
    then have "snd (query E url attempts method raw extra s) = s0"
      using d a by (simp add: query_def)
    then show ?thesis using as by simp
  next
    case (Inr b)
    obtain t s1 where g: "get_oauth_token E s0 = (t, s1)" by (cases "get_oauth_token E s0")
    obtain ts where ts: "trace s1 = trace s0 @ ts"
      using get_oauth_token_grows [OF g] by (auto simp: grows_def)
    show ?thesis
    proof (cases t)
      case (Inl e)
      then have "snd (query E url attempts method raw extra s) = s1"
        using d a Inr g by (simp add: query_def)
      then show ?thesis using as ts by simp
    next
      case bearer: (Inr bearer)
      obtain x s' where q: "query_loop E url attempts method raw extra bearer 0 s1 = (x, s')"
        by (cases "query_loop E url attempts method raw extra bearer 0 s1")
      obtain ys where ys: "trace s' = trace s1 @ ys"
        using query_loop_trace [OF q] by blast
      have "snd (query E url attempts method raw extra s) = s'"
        using d a Inr g bearer q by (simp add: query_def)
      then show ?thesis using as ts ys by simp
    qed
  qed
qed

theorem reauthentication_before_request_only_in_debug_witness:
  "\<exists>xs. trace (snd (query (example_env rejecting) ''https://api/devices'' 1 ''GET'' False None
                  ((example_connected rejecting)\<lparr>is_connected := Some False\<rparr>))) =
          trace ((example_connected rejecting)\<lparr>is_connected := Some False\<rparr>) @ xs \<and>
        prompted None xs"
  using reauthentication_before_request_only_in_debug
    [of "(example_connected rejecting)\<lparr>is_connected := Some False\<rparr>"
        "example_env rejecting" "''https://api/devices''" 1 "''GET''" False None]
  by (simp add: example_defs)

section \<open>Soft failure of a query\<close>

lemma merge_extra_trace: "merge_extra extra s = Inr s1 \<Longrightarrow> trace s1 = trace s"
  by (auto simp: merge_extra_def split: option.splits if_splits)

lemma query_loop_soft_failure:
  assumes "params s \<noteq> None" and "known_method method"
    and "\<forall>i < nat (attempts + 1 - loop). \<exists>r. http E (http_n s + i) = Responds r \<and>
           status_code r \<noteq> 200 \<and> status_code r \<noteq> 204 \<and> status_code r \<noteq> 401"
  shows "fst (query_loop E url attempts method raw extra bearer loop s) = Inr (Val PNone)"
  using assms
proof (induction "nat (attempts + 1 - loop)" arbitrary: loop s rule: less_induct)
  case less
  show ?case
  proof (cases "loop \<le> attempts")
    case False
    then show ?thesis by (subst query_loop.simps) simp
  next
    case le: True
    obtain s1 where m: "merge_extra extra s = Inr s1" "params s1 \<noteq> None" "http_n s1 = http_n s"
      using merge_extra_present [OF less.prems(1)] by blast
    then obtain p where p: "params s1 = Some p" by auto
    have "0 < nat (attempts + 1 - loop)" using le by simp
    then obtain r where r: "http E (http_n s) = Responds r" "status_code r \<noteq> 200"
      "status_code r \<noteq> 204" "status_code r \<noteq> 401"
      using less.prems(3) by force
    define s2 where "s2 = s1\<lparr>http_n := Suc (http_n s1),
      trace := trace s1 @ [QueryRequest method url p bearer, QueryReply (status_code r)]\<rparr>"
    have sq: "send_query E url method bearer s1 = (Inr r, s2)"
      using less.prems(2) p r(1) m(3)
      by (simp add: send_query_def http_request_def Let_def s2_def)
    have step: "query_loop E url attempts method raw extra bearer loop s =
                query_loop E url attempts method raw extra bearer (loop + 1) s2"
      using le m(1) sq r by (subst query_loop.simps) simp
    have dec: "nat (attempts + 1 - (loop + 1)) < nat (attempts + 1 - loop)" using le by simp
    have p2: "params s2 \<noteq> None" using p by (simp add: s2_def)
    have h2: "http_n s2 = Suc (http_n s)" using m(3) by (simp add: s2_def)
    have rest: "\<forall>i < nat (attempts + 1 - (loop + 1)). \<exists>r. http E (http_n s2 + i) = Responds r \<and>
           status_code r \<noteq> 200 \<and> status_code r \<noteq> 204 \<and> status_code r \<noteq> 401"
    proof (intro allI impI)
      fix i assume "i < nat (attempts + 1 - (loop + 1))"
      then have "Suc i < nat (attempts + 1 - loop)" using le by linarith
      then show "\<exists>r. http E (http_n s2 + i) = Responds r \<and>
           status_code r \<noteq> 200 \<and> status_code r \<noteq> 204 \<and> status_code r \<noteq> 401"
        using less.prems(3) [rule_format, of "Suc i"] by (simp add: h2)
    qed
    show ?thesis
      using less.hyps [OF dec p2 less.prems(2) rest] by (simp add: step)
  qed
qed

lemma new_events_append:
  "trace s1 = trace s @ xs \<Longrightarrow> trace s2 = trace s1 @ ys \<Longrightarrow>
     new_events s s2 = xs @ ys \<and> new_events s1 s2 = ys"
  by (simp add: new_events_def)

lemma query_loop_none_without_success:
  "query_loop E url attempts method raw extra bearer loop s = (Inr v, s') \<Longrightarrow>
   QueryReply 200 \<notin> set (new_events s s') \<Longrightarrow> QueryReply 204 \<notin> set (new_events s s') \<Longrightarrow>
   v = Val PNone"
proof (induction "nat (attempts + 1 - loop)" arbitrary: loop s rule: less_induct)
  case less
  from less.prems(1) show ?case
  proof (cases rule: query_loop_step)
    case exhausted
    then show ?thesis by simp
  next
    case (merge_failed e)
    then show ?thesis by simp
  next
    case (send_failed s1 e)
    then show ?thesis by simp
  next
    case (reauth_failed s1 r s2 e)
    then show ?thesis by simp
  next
    case (reauth s1 r s2 b s3)
    have t1: "trace s1 = trace s" using reauth(2) by (rule merge_extra_trace)
    obtain p where t2: "trace s2 = trace s1 @ [QueryRequest method url p bearer, QueryReply 401]"
      using send_query_Inr [OF reauth(3)] reauth(4) by auto
    obtain as where t3: "trace s3 = trace s2 @ AuthenticateCall (Some False) # as"
      using authenticate_trace [OF reauth(5)] by auto
    obtain ys where t4: "trace s' = trace s3 @ ys" using query_loop_trace [OF reauth(6)] by blast
    have a: "trace s3 = trace s @ ([QueryRequest method url p bearer, QueryReply 401] @
                AuthenticateCall (Some False) # as)"
      using t1 t2 t3 by simp
    have sub: "set (new_events s3 s') \<subseteq> set (new_events s s')"
      using new_events_append [OF a t4] by auto
    have dec: "nat (attempts + 1 - (loop + 1)) < nat (attempts + 1 - loop)" using reauth(1) by simp
    show ?thesis
      using less.hyps [OF dec reauth(6)] less.prems(2,3) sub by blast
  next
    case (answer s1 r)
    have t1: "trace s1 = trace s" using answer(2) by (rule merge_extra_trace)
    obtain p where "trace s' = trace s1 @ [QueryRequest method url p bearer, QueryReply (status_code r)]"
      using send_query_Inr [OF answer(3)] by auto
    then have "QueryReply (status_code r) \<in> set (new_events s s')"
      using t1 by (simp add: new_events_def)
    then show ?thesis using answer(4) less.prems(2,3) by auto
  next
    case (other s1 r s2)
    have t1: "trace s1 = trace s" using other(2) by (rule merge_extra_trace)
    obtain p where t2: "trace s2 = trace s1 @ [QueryRequest method url p bearer, QueryReply (status_code r)]"
      using send_query_Inr [OF other(3)] by auto
    obtain ys where t4: "trace s' = trace s2 @ ys" using query_loop_trace [OF other(6)] by blast
    have a: "trace s2 = trace s @ [QueryRequest method url p bearer, QueryReply (status_code r)]"
      using t1 t2 by simp
    have sub: "set (new_events s2 s') \<subseteq> set (new_events s s')"
      using new_events_append [OF a t4] by auto
    have dec: "nat (attempts + 1 - (loop + 1)) < nat (attempts + 1 - loop)" using other(1) by simp
    show ?thesis
      using less.hyps [OF dec other(6)] less.prems(2,3) sub by blast
  qed
qed


lemma query_unfold:
  obtains (pre_failed) e s0 where "debug s \<and> is_connected s \<noteq> Some True"
      "authenticate E (RETRY_TOKEN E) None s = (Inl e, s0)"
      "query E url attempts method raw extra s = (Inl e, s0)"
  | (token_failed) s0 e s1 where "\<exists>xs. trace s0 = trace s @ xs"
      "get_oauth_token E s0 = (Inl e, s1)"
      "query E url attempts method raw extra s = (Inl e, s1)"
  | (looped) s0 bearer s1 where "\<exists>xs. trace s0 = trace s @ xs"
      "get_oauth_token E s0 = (Inr bearer, s1)"
      "query E url attempts method raw extra s =
         query_loop E url attempts method raw extra bearer 0 s1"
proof -
  obtain y s0 where a: "(if debug s \<and> is_connected s \<noteq> Some True
            then authenticate E (RETRY_TOKEN E) None s else (Inr True, s)) = (y, s0)"
    by (cases "(if debug s \<and> is_connected s \<noteq> Some True
            then authenticate E (RETRY_TOKEN E) None s else (Inr True, s))")
  have tr: "\<exists>xs. trace s0 = trace s @ xs"
    using a authenticate_trace [of E "RETRY_TOKEN E" None s y s0]
    by (auto split: if_splits)
  show thesis
  proof (cases y)
    case (Inl e)
    then have d: "debug s \<and> is_connected s \<noteq> Some True" using a by (auto split: if_splits)
    then have "authenticate E (RETRY_TOKEN E) None s = (Inl e, s0)" using a Inl by simp
    moreover have "query E url attempts method raw extra s = (Inl e, s0)"
      using a Inl by (simp add: query_def)
    ultimately show ?thesis using d by (intro pre_failed)
  next
    case (Inr b)
    obtain t s1 where g: "get_oauth_token E s0 = (t, s1)" by (cases "get_oauth_token E s0")
    show ?thesis
    proof (cases t)
      case (Inl e)
      then have "query E url attempts method raw extra s = (Inl e, s1)"
        using a Inr g by (simp add: query_def)
      then show ?thesis using tr g Inl by (intro token_failed) simp_all
    next
      case bearer: (Inr bearer)
      then have "query E url attempts method raw extra s =
         query_loop E url attempts method raw extra bearer 0 s1"
        using a Inr g by (simp add: query_def)
      then show ?thesis using tr g bearer by (intro looped) simp_all
    qed
  qed
qed

text \<open>
  C4: a \<^verbatim>\<open>query\<close> call that has reached its loop with the session parameters set and
  whose requests are all answered with statuses other than 200, 204 and 401 returns
  \<^verbatim>\<open>None\<close>; and whenever a call returns without having received a 200 or a 204
  (it ran out of iterations, also after 401 replies and re-authentications that
  returned), what it returns is \<^verbatim>\<open>None\<close>.
\<close>

theorem query_soft_failure:
  "((if debug s \<and> is_connected s \<noteq> Some True
     then authenticate E (RETRY_TOKEN E) None s else (Inr True, s)) = (Inr b, s0) \<and>
    get_oauth_token E s0 = (Inr bearer, s1) \<and> params s1 \<noteq> None \<and> known_method method \<and>
    (\<forall>i < nat (attempts + 1). \<exists>r. http E (http_n s1 + i) = Responds r \<and>
        status_code r \<noteq> 200 \<and> status_code r \<noteq> 204 \<and> status_code r \<noteq> 401)
    \<longrightarrow> fst (query E url attempts method raw extra s) = Inr (Val PNone)) \<and>
   (fst (query E url attempts method raw extra s) = Inr v \<and>
    QueryReply 200 \<notin> set (new_events s (snd (query E url attempts method raw extra s))) \<and>
    QueryReply 204 \<notin> set (new_events s (snd (query E url attempts method raw extra s)))
    \<longrightarrow> v = Val PNone)"
proof (intro conjI impI)
  assume h: "(if debug s \<and> is_connected s \<noteq> Some True
     then authenticate E (RETRY_TOKEN E) None s else (Inr True, s)) = (Inr b, s0) \<and>
    get_oauth_token E s0 = (Inr bearer, s1) \<and> params s1 \<noteq> None \<and> known_method method \<and>
    (\<forall>i < nat (attempts + 1). \<exists>r. http E (http_n s1 + i) = Responds r \<and>
        status_code r \<noteq> 200 \<and> status_code r \<noteq> 204 \<and> status_code r \<noteq> 401)"
  then have q: "query E url attempts method raw extra s =
             query_loop E url attempts method raw extra bearer 0 s1"
    by (simp add: query_def)
  show "fst (query E url attempts method raw extra s) = Inr (Val PNone)"
    using query_loop_soft_failure [of s1 "method" attempts 0 E url raw extra bearer] h
    by (simp add: q)
next
  assume h: "fst (query E url attempts method raw extra s) = Inr v \<and>
    QueryReply 200 \<notin> set (new_events s (snd (query E url attempts method raw extra s))) \<and>
    QueryReply 204 \<notin> set (new_events s (snd (query E url attempts method raw extra s)))"
  show "v = Val PNone"
  proof (cases rule: query_unfold [of s E url attempts "method" raw extra])
    case (pre_failed e s0)
    then show ?thesis using h by simp
  next
    case (token_failed s0 e s1)
    then show ?thesis using h by simp
  next
    case (looped s0 bearer s1)
    obtain x s' where l: "query_loop E url attempts method raw extra bearer 0 s1 = (x, s')"
      by (cases "query_loop E url attempts method raw extra bearer 0 s1")
    then have x: "x = Inr v" and s': "snd (query E url attempts method raw extra s) = s'"
      using h looped(3) by simp_all
    obtain xs where xs: "trace s0 = trace s @ xs" using looped(1) by blast
    obtain ts where ts: "trace s1 = trace s0 @ ts"
      using get_oauth_token_grows [OF looped(2)] by (auto simp: grows_def)
    obtain ys where ys: "trace s' = trace s1 @ ys" using query_loop_trace [OF l] by blast
    have a: "trace s1 = trace s @ (xs @ ts)" using xs ts by simp
    have "set (new_events s1 s') \<subseteq> set (new_events s s')"
      using new_events_append [OF a ys] by auto
    then show ?thesis
      using query_loop_none_without_success [OF l [unfolded x]] h s' by auto
  qed
qed

theorem query_soft_failure_witness:
  "fst (query (example_env (always 500)) ''https://api/devices'' 1 ''GET'' False None
          (example_connected (always 500))) = Inr (Val PNone)"
  using query_soft_failure
    [of "example_connected (always 500)" "example_env (always 500)" True
        "example_connected (always 500)" "PStr ''A''"
        "(example_connected (always 500))\<lparr>clock_n := 1\<rparr>" "''GET''" 1
        "''https://api/devices''" False None]
  by (simp add: example_defs token_defs known_method_def)

section \<open>A cached session is validated by one GET\<close>

lemma grows_mono: "grows P s s' \<Longrightarrow> (\<And>e. P e \<Longrightarrow> Q e) \<Longrightarrow> grows Q s s'"
  by (auto simp: grows_def list_all_iff)

lemma get_oauth_token_quiet:
  assumes "get_oauth_token E s = (r, s')"
  shows "grows quiet s s'"
  using assms
  by (auto simp: token_defs Let_def quiet_def grows_def
      split: if_splits sum.splits prod.splits option.splits bool.splits)

lemma get_oauth_token_frame:
  assumes "get_oauth_token E s = (r, s')"
  shows "token s' = token s \<and> params s' = params s \<and> debug s' = debug s \<and>
         http_n s' = http_n s \<and> is_connected s' = is_connected s"
  using assms
  by (auto simp: token_defs Let_def
      split: if_splits sum.splits prod.splits option.splits bool.splits)

lemma establish_quiet:
  assumes "establish E b s = (r, s')"
  shows "grows quiet s s'"
  using assms
  by (auto simp: establish_def http_request_def save_cache_def Let_def quiet_def grows_def
      split: if_splits sum.splits prod.splits http_outcome.splits)

lemma establish_result:
  assumes "establish E b s = (Inr x, s')"
  shows "x = True \<and> is_connected s' = Some True \<and> token s' = token s \<and>
         params s' = Some (session_params E s)"
  using assms
  by (auto simp: establish_def http_request_def save_cache_def Let_def
      split: if_splits sum.splits prod.splits http_outcome.splits)

text \<open>A pre-supplied 200 response settles \<^verbatim>\<open>_authenticate\<close> in its first iteration,
  without a request to the new-session endpoint.\<close>

lemma authenticate_with_session:
  assumes "status_code r = 200" and "0 \<le> attempts"
    and "authenticate E attempts (Some r) s = (x, s')"
  shows "grows quiet s s' \<and>
         (\<forall>b. x = Inr b \<longrightarrow> b = True \<and> is_connected s' = Some True \<and> token s' = token s \<and>
                params s' = Some (session_params E s))"
proof -
  define s0 where "s0 = s\<lparr>trace := trace s @ [AuthenticateCall (is_connected s)]\<rparr>"
  have g0: "grows quiet s s0" by (simp add: s0_def grows_def quiet_def)
  obtain t s1 where g: "get_oauth_token E s0 = (t, s1)" by (cases "get_oauth_token E s0")
  have g1: "grows quiet s0 s1" using g by (rule get_oauth_token_quiet)
  have f1: "token s1 = token s" using get_oauth_token_frame [OF g] by (simp add: s0_def)
  have ok: "resp_ok r" using assms(1) by (simp add: resp_ok_def is_http_error_def)
  show ?thesis
  proof (cases t)
    case (Inl e)
    then have "x = Inl e" "s' = s1"
      using assms(2,3) g
      by (simp_all add: authenticate_def authenticate_loop.simps [of E attempts "Some r" 0]
          s0_def [symmetric])
    then show ?thesis using g0 g1 by (auto intro: grows_trans)
  next
    case (Inr bearer)
    then have e: "establish E bearer s1 = (x, s')"
      using assms g ok
      by (simp add: authenticate_def authenticate_loop.simps [of E attempts "Some r" 0]
          s0_def [symmetric] on_success_def)
    have "grows quiet s s'" using g0 g1 establish_quiet [OF e] by (blast intro: grows_trans)
    moreover have "\<forall>b. x = Inr b \<longrightarrow> b = True \<and> is_connected s' = Some True \<and>
        token s' = token s \<and> params s' = Some (session_params E s)"
      using establish_result [of E bearer s1 _ s'] e f1 by (auto simp: session_params_def)
    ultimately show ?thesis by blast
  qed
qed


lemma quiet_trace: "trace s = [] \<Longrightarrow> grows quiet s s' \<Longrightarrow> \<not> list_ex is_session_post (trace s')"
  by (auto simp: grows_def quiet_def list_all_iff list_ex_iff)

text \<open>
  C6, as stated, fails in debug mode: \<^verbatim>\<open>query\<close> starts with
  \<^verbatim>\<open>self.debug and not self.is_connected\<close>, which holds on a new object, and calls
  \<^verbatim>\<open>_authenticate()\<close>, which posts to the new-session endpoint before the validation
  GET is sent. The record was saved for the same user and the GET is answered with 200.
\<close>

theorem debug_mode_posts_despite_cache:
  "trace (snd (ring_init (example_env devices_ok) ''user'' ''secret'' True False [] True
         (cache_store (save_cache [(''account'', PStr ''user''), (''token'', PStr ''T'')]
                         (example_fresh devices_ok))))) =
     [AuthenticateCall None, FetchToken,
      SessionPost ''https://api/session'' (PStr ''A''),
      SaveCache [(''account'', PStr ''user''), (''token'', PStr ''T''),
                 (''auth'', PDict [(''access_token'', PStr ''A''), (''expires_in'', PInt 3600)])],
      RefreshTokens,
      QueryRequest ''GET'' ''https://api/devices''
        [(''api_version'', PStr ''9''), (''auth_token'', PStr ''T'')] (PStr ''B''),
      QueryReply 200, AuthenticateCall (Some True),
      SaveCache [(''account'', PStr ''user''), (''token'', PStr ''T''),
                 (''auth'', PDict [(''access_token'', PStr ''B''), (''expires_in'', PInt 3600)])]]"
  by (simp add: ring_init_def process_cached_session_def exists_cache_def read_cache_def
      run_defs example_defs token_defs devices_ok_def)

text \<open>
  C6, amended: with debug mode off, after a cache record with a token and the current
  username as account has been saved, construction with session reuse, when the first
  request (the validation GET) is answered with 200, never posts to the new-session
  endpoint; and when construction returns, the session is connected with the cached
  session token.
\<close>

theorem cached_session_skips_password_post:
  assumes usable: "map_of c ''token'' = Some t" "t \<noteq> PNone"
      "map_of c ''account'' = Some (PStr user)"
    and first: "http E 0 = Responds r" "status_code r = 200"
    and retry: "0 \<le> RETRY_TOKEN E"
  shows "\<not> list_ex is_session_post
           (trace (snd (ring_init E user pass False persist url True
                          (cache_store (save_cache c s0))))) \<and>
         (\<forall>b. fst (ring_init E user pass False persist url True
                       (cache_store (save_cache c s0))) = Inr b \<longrightarrow>
            is_connected (snd (ring_init E user pass False persist url True
                       (cache_store (save_cache c s0)))) = Some True \<and>
            token (snd (ring_init E user pass False persist url True
                       (cache_store (save_cache c s0)))) = t)"
proof -
  define sa where "sa = (new_ring E user pass False persist url True (Some c))\<lparr>cache := c\<rparr>"
  define sc where "sc = sa\<lparr>token := t, params := Some (session_params E (sa\<lparr>token := t\<rparr>))\<rparr>"
  define sd where "sd = (case map_of c ''auth'' of None \<Rightarrow> sc | Some a \<Rightarrow> sc\<lparr>auth := a\<rparr>)"
  define url' where "url' = API_URI E @ DEVICES_ENDPOINT E"
  have sd: "trace sd = []" "http_n sd = 0" "\<not> debug sd" "params sd \<noteq> None" "token sd = t"
    by (simp_all add: sd_def sc_def sa_def new_ring_def split: option.splits)
  have init: "ring_init E user pass False persist url True (cache_store (save_cache c s0)) =
      (case query E url' (RETRY_TOKEN E) ''GET'' True None sd of
         (Inl e, s5) \<Rightarrow> (Inl e, s5)
       | (Inr (Raw r), s5) \<Rightarrow>
           (if resp_ok r \<and> status_code r = 200
            then authenticate E (RETRY_TOKEN E) (Some r) s5
            else authenticate E (RETRY_TOKEN E) None s5)
       | (Inr (Val v), s5) \<Rightarrow> authenticate E (RETRY_TOKEN E) None s5)"
    using usable
    by (cases "map_of c ''auth''")
       (simp_all add: ring_init_def process_cached_session_def exists_cache_def read_cache_def
        save_cache_def Let_def sd_def sc_def sa_def url'_def new_ring_def session_params_def)
  obtain tk s5 where g: "get_oauth_token E sd = (tk, s5)" by (cases "get_oauth_token E sd")
  have g5: "grows quiet sd s5" using g by (rule get_oauth_token_quiet)
  have f5: "token s5 = t" "params s5 \<noteq> None" "http_n s5 = 0"
    using get_oauth_token_frame [OF g] sd by simp_all
  show ?thesis
  proof (cases tk)
    case (Inl e)
    then have "query E url' (RETRY_TOKEN E) ''GET'' True None sd = (Inl e, s5)"
      using g sd(3) by (simp add: query_def)
    then have "ring_init E user pass False persist url True (cache_store (save_cache c s0)) = (Inl e, s5)"
      by (simp add: init)
    then show ?thesis using quiet_trace [OF sd(1) g5] by simp
  next
    case (Inr bearer)
    obtain p where p: "params s5 = Some p" using f5(2) by auto
    define s6 where "s6 = s5\<lparr>http_n := Suc (http_n s5),
       trace := trace s5 @ [QueryRequest ''GET'' url' p bearer, QueryReply (status_code r)]\<rparr>"
    have "query_loop E url' (RETRY_TOKEN E) ''GET'' True None bearer 0 s5 = (Inr (Raw r), s6)"
      using retry first p f5(3)
      by (subst query_loop.simps)
         (simp add: merge_extra_def send_query_def http_request_def known_method_def
            query_value_def Let_def s6_def)
    then have q: "query E url' (RETRY_TOKEN E) ''GET'' True None sd = (Inr (Raw r), s6)"
      using g Inr sd(3) by (simp add: query_def)
    have g6: "grows quiet s5 s6" by (simp add: s6_def grows_def quiet_def)
    have t6: "token s6 = t" using f5(1) by (simp add: s6_def)
    obtain x s' where a: "authenticate E (RETRY_TOKEN E) (Some r) s6 = (x, s')"
      by (cases "authenticate E (RETRY_TOKEN E) (Some r) s6")
    have ok: "resp_ok r" using first(2) by (simp add: resp_ok_def is_http_error_def)
    have res: "ring_init E user pass False persist url True (cache_store (save_cache c s0)) = (x, s')"
      using q a ok first(2) by (simp add: init)
    have fin: "grows quiet s6 s'"
      "\<forall>b. x = Inr b \<longrightarrow> b = True \<and> is_connected s' = Some True \<and> token s' = token s6 \<and>
                params s' = Some (session_params E s6)"
      using authenticate_with_session [OF first(2) retry a] by blast+
    have "grows quiet sd s'" using g5 g6 fin(1) by (blast intro: grows_trans)
    then have "\<not> list_ex is_session_post (trace s')" using quiet_trace [OF sd(1)] by simp
    then show ?thesis using fin(2) t6 by (auto simp: res)
  qed
qed

theorem cached_session_skips_password_post_witness:
  "\<not> list_ex is_session_post
      (trace (snd (ring_init (example_env devices_ok) ''user'' ''secret'' False False [] True
         (cache_store (save_cache [(''account'', PStr ''user''), (''token'', PStr ''T'')]
                         (example_fresh devices_ok))))))"
  using cached_session_skips_password_post
    [of "[(''account'', PStr ''user''), (''token'', PStr ''T'')]" "PStr ''T''" "''user''"
        "example_env devices_ok"
        "\<lparr>status_code = 200, json_body = Some (PDict [(''doorbots'', PList [])])\<rparr>"
        "''secret''" False "[]" "example_fresh devices_ok"]
  by (simp add: example_defs devices_ok_def)

section \<open>Extra parameters stay in the session\<close>











section \<open>The discipline of the retry loop\<close>

lemma answered_session: "list_all session_event xs \<Longrightarrow> answered xs"
  by (induction xs rule: answered.induct) (auto simp: session_event_def)

lemma answered_append:
  "answered xs \<Longrightarrow> answered ys \<Longrightarrow> answered (xs @ ys)"
  by (induction xs rule: answered.induct) (cases ys; auto)+

lemma answered_reauth:
  assumes "list_all session_event as" and "answered ys"
  shows "answered ([QueryRequest m u p b, QueryReply 401] @ AuthenticateCall (Some False) # as @ ys)"
proof -
  have "answered (as @ ys)" using assms by (simp add: answered_session answered_append)
  then show ?thesis by (cases "as @ ys") auto
qed

lemma requests_session: "list_all session_event xs \<Longrightarrow> filter is_query_request xs = []"
  by (induction xs) (auto simp: session_event_def elim: is_query_request.elims)

text \<open>Every run of the loop: each 401 reply is directly followed by one entry into
  \<^verbatim>\<open>_authenticate\<close> with \<^verbatim>\<open>is_connected\<close> false, and the loop issues at most one
  request per iteration, \<open>attempts + 1 - loop\<close> in all.\<close>

lemma query_loop_discipline:
  "query_loop E url attempts method raw extra bearer loop s = (x, s') \<Longrightarrow>
     \<exists>xs. trace s' = trace s @ xs \<and> answered xs \<and>
          length (filter is_query_request xs) \<le> nat (attempts + 1 - loop)"
proof (induction "nat (attempts + 1 - loop)" arbitrary: loop s rule: less_induct)
  case less
  from less.prems show ?case
  proof (cases rule: query_loop_step)
    case exhausted
    then show ?thesis by simp
  next
    case (merge_failed e)
    then show ?thesis by simp
  next
    case (send_failed s1 e)
    have "trace s1 = trace s" using send_failed(2) by (rule merge_extra_trace)
    then show ?thesis using send_query_Inl [OF send_failed(3)] send_failed(1) by auto
  next
    case (reauth_failed s1 r s2 e)
    have t1: "trace s1 = trace s" using reauth_failed(2) by (rule merge_extra_trace)
    obtain p where t2: "trace s2 = trace s1 @ [QueryRequest method url p bearer, QueryReply 401]"
      using send_query_Inr [OF reauth_failed(3)] reauth_failed(4) by auto
    obtain as where t3: "trace s' = trace s2 @ AuthenticateCall (Some False) # as"
      "list_all session_event as"
      using authenticate_trace [OF reauth_failed(5)] by auto
    have "trace s' = trace s @ ([QueryRequest method url p bearer, QueryReply 401] @
             AuthenticateCall (Some False) # as @ [])"
      using t1 t2 t3 by simp
    moreover have "answered ([QueryRequest method url p bearer, QueryReply 401] @
             AuthenticateCall (Some False) # as @ [])"
      using t3(2) by (intro answered_reauth) simp_all
    moreover have "length (filter is_query_request ([QueryRequest method url p bearer, QueryReply 401] @
             AuthenticateCall (Some False) # as @ [])) \<le> nat (attempts + 1 - loop)"
      using reauth_failed(1) t3(2) by (simp add: requests_session)
    ultimately show ?thesis by blast
  next
    case (reauth s1 r s2 b s3)
    have t1: "trace s1 = trace s" using reauth(2) by (rule merge_extra_trace)
    obtain p where t2: "trace s2 = trace s1 @ [QueryRequest method url p bearer, QueryReply 401]"
      using send_query_Inr [OF reauth(3)] reauth(4) by auto
    obtain as where t3: "trace s3 = trace s2 @ AuthenticateCall (Some False) # as"
      "list_all session_event as"
      using authenticate_trace [OF reauth(5)] by auto
    have dec: "nat (attempts + 1 - (loop + 1)) < nat (attempts + 1 - loop)" using reauth(1) by simp
    from less.hyps [OF dec reauth(6)]
    obtain ys where t4: "trace s' = trace s3 @ ys" "answered ys"
      "length (filter is_query_request ys) \<le> nat (attempts + 1 - (loop + 1))" by auto
    have "trace s' = trace s @ ([QueryRequest method url p bearer, QueryReply 401] @
             AuthenticateCall (Some False) # as @ ys)"
      using t1 t2 t3 t4 by simp
    moreover have "answered ([QueryRequest method url p bearer, QueryReply 401] @
             AuthenticateCall (Some False) # as @ ys)"
      using t3(2) t4(2) by (rule answered_reauth)
    moreover have "length (filter is_query_request ([QueryRequest method url p bearer, QueryReply 401] @
             AuthenticateCall (Some False) # as @ ys)) \<le> nat (attempts + 1 - loop)"
      using reauth(1) t3(2) t4(3) by (simp add: requests_session)
    ultimately show ?thesis by blast
  next
    case (answer s1 r)
    have t1: "trace s1 = trace s" using answer(2) by (rule merge_extra_trace)
    obtain p where "trace s' = trace s1 @ [QueryRequest method url p bearer, QueryReply (status_code r)]"
      using send_query_Inr [OF answer(3)] by auto
    then show ?thesis using t1 answer(1,4) by auto
  next
    case (other s1 r s2)
    have t1: "trace s1 = trace s" using other(2) by (rule merge_extra_trace)
    obtain p where t2: "trace s2 = trace s1 @ [QueryRequest method url p bearer, QueryReply (status_code r)]"
      using send_query_Inr [OF other(3)] by auto
    have dec: "nat (attempts + 1 - (loop + 1)) < nat (attempts + 1 - loop)" using other(1) by simp
    from less.hyps [OF dec other(6)]
    obtain ys where t4: "trace s' = trace s2 @ ys" "answered ys"
      "length (filter is_query_request ys) \<le> nat (attempts + 1 - (loop + 1))" by auto
    have "trace s' = trace s @ ([QueryRequest method url p bearer, QueryReply (status_code r)] @ ys)"
      using t1 t2 t4 by simp
    moreover have "answered ([QueryRequest method url p bearer, QueryReply (status_code r)] @ ys)"
      using t4(2) other(4) by (cases ys) auto
    moreover have "length (filter is_query_request
             ([QueryRequest method url p bearer, QueryReply (status_code r)] @ ys)) \<le> nat (attempts + 1 - loop)"
      using other(1) t4(3) by simp
    ultimately show ?thesis by blast
  qed
qed

section \<open>Further facts about authentication\<close>

text \<open>When every answer of the transport has a status from 400 to 599,
  \<^verbatim>\<open>_authenticate\<close> without a pre-supplied response never returns normally.\<close>

lemma authenticate_loop_never_returns_on_errors:
  assumes "\<forall>n. \<exists>r. http E n = Responds r \<and> is_http_error r"
    and "case req of None \<Rightarrow> loop \<le> attempts | Some r \<Rightarrow> is_http_error r"
  shows "fst (authenticate_loop E attempts None loop req s) \<noteq> Inr b"
  using assms(2)
proof (induction "nat (attempts + 1 - loop)" arbitrary: loop req s rule: less_induct)
  case less
  show ?case
  proof (cases "loop \<le> attempts")
    case False
    then obtain r where "req = Some r" "is_http_error r" using less.prems by (cases req) auto
    then show ?thesis using False by (subst authenticate_loop.simps) (simp add: Let_def)
  next
    case le: True
    obtain t s1 where g: "get_oauth_token E s = (t, s1)" by (cases "get_oauth_token E s")
    show ?thesis
    proof (cases t)
      case (Inl e)
      then show ?thesis using le g by (subst authenticate_loop.simps) simp
    next
      case (Inr bearer)
      obtain r where r: "http E (http_n s1) = Responds r" "is_http_error r"
        using assms(1) by blast
      define s2 where "s2 = s1\<lparr>http_n := Suc (http_n s1),
          trace := trace s1 @ [SessionPost (API_URI E @ NEW_SESSION_ENDPOINT E) bearer]\<rparr>"
      have step: "authenticate_loop E attempts None loop req s =
                  authenticate_loop E attempts None (loop + 1) (Some r) (sleep s2)"
        using le g Inr r
        by (subst authenticate_loop.simps)
           (simp add: http_request_def Let_def resp_ok_def s2_def)
      have dec: "nat (attempts + 1 - (loop + 1)) < nat (attempts + 1 - loop)" using le by simp
      show ?thesis
        using less.hyps [OF dec, of "Some r" "sleep s2"] r(2) by (simp add: step)
    qed
  qed
qed

lemma authenticate_never_returns_on_errors:
  assumes "\<forall>n. \<exists>r. http E n = Responds r \<and> is_http_error r" and "0 \<le> attempts"
  shows "fst (authenticate E attempts None s) \<noteq> Inr b"
  using authenticate_loop_never_returns_on_errors
          [OF assms(1), where req = None and loop = 0 and attempts = attempts] assms(2)
  by (simp add: authenticate_def)

text \<open>The run behind C6 with debug mode off, in full: the validation GET is the only
  request and construction returns \<^verbatim>\<open>True\<close>.\<close>

lemma cached_session_example:
  "fst (ring_init (example_env devices_ok) ''user'' ''secret'' False False [] True
         (cache_store (save_cache [(''account'', PStr ''user''), (''token'', PStr ''T'')]
                         (example_fresh devices_ok)))) = Inr True \<and>
   trace (snd (ring_init (example_env devices_ok) ''user'' ''secret'' False False [] True
         (cache_store (save_cache [(''account'', PStr ''user''), (''token'', PStr ''T'')]
                         (example_fresh devices_ok))))) =
     [FetchToken,
      QueryRequest ''GET'' ''https://api/devices''
        [(''api_version'', PStr ''9''), (''auth_token'', PStr ''T'')] (PStr ''A''),
      QueryReply 200, AuthenticateCall None, RefreshTokens,
      SaveCache [(''account'', PStr ''user''), (''token'', PStr ''T''),
                 (''auth'', PDict [(''access_token'', PStr ''B''), (''expires_in'', PInt 3600)])]]"
  by (simp add: ring_init_def process_cached_session_def exists_cache_def read_cache_def
      run_defs example_defs token_defs devices_ok_def)

end
